theory Spec2Isabelle
  imports Main
begin

section \<open>slidemachine: slides, processors and the expansion pass\<close>

text \<open>
  The development embeds \<^verbatim>\<open>src/slidemachine/slidemachine.py\<close>: the class
  \<^verbatim>\<open>Slide\<close> (constructor, \<^verbatim>\<open>apply\<close>, the properties \<^verbatim>\<open>markdown\<close> and
  \<^verbatim>\<open>html\<close>) and the splitting loop of \<^verbatim>\<open>SlideMachine._read_md_file\<close>.

  A line is a Python \<^verbatim>\<open>str\<close>. The processors (module \<^verbatim>\<open>processors\<close>) and the
  markdown renderer (\<^verbatim>\<open>mistune\<close>) are not part of the file; they enter as
  parameters with the interface the file uses: \<^verbatim>\<open>processor.process(line)\<close>
  returns either a line or a tuple of lines, \<^verbatim>\<open>"{}".format(processor)\<close> is the
  processor's printed name, and the renderer maps a string to a string.
\<close>

subsection \<open>Data\<close>

type_synonym line = string

text \<open>What \<^verbatim>\<open>processor.process\<close> returns: the test \<^verbatim>\<open>type(new_line) is tuple\<close>
  of line 63 distinguishes the two constructors.\<close>

datatype result = Single line | Tuple "line list"

fun is_tuple :: "result \<Rightarrow> bool" where
  "is_tuple (Single l) = False"
| "is_tuple (Tuple ts) = True"

text \<open>Iterating over the tuple at \<^verbatim>\<open>new_lines[expanded_line]\<close> (line 85). The
  index is only ever set to a position holding a tuple.\<close>

fun tuple_items :: "result \<Rightarrow> line list" where
  "tuple_items (Tuple ts) = ts"
| "tuple_items (Single l) = []"

text \<open>Reading an entry of \<^verbatim>\<open>new_lines\<close> that is a line. Python keeps the
  entries of both halves as they are; a second tuple raises before
  recombination, so the halves hold lines only (lemma \<open>scan_lines_halves\<close>
  below) and the second equation is never reached.\<close>

fun the_line :: "result \<Rightarrow> line" where
  "the_line (Single l) = l"
| "the_line (Tuple ts) = []"

record processor =
  process :: "line \<Rightarrow> result"
  proc_str :: string

datatype error =
    SlideMachineError string
  | AttributeError string
  | TypeError

record slide =
  slide_lines :: "line list"
  sub_slides :: "line list list"
  override_transition :: bool

abbreviation nl :: char where
  "nl \<equiv> CHR 0x0A"

subsection \<open>\<^verbatim>\<open>Slide.__init__\<close> (lines 26--36)\<close>

definition Slide_init :: "line list \<Rightarrow> slide" where
  "Slide_init lines0 =
     \<lparr> slide_lines = lines0,
       sub_slides = [lines0],
       override_transition = False \<rparr>"

subsection \<open>\<^verbatim>\<open>Slide.apply\<close> (lines 38--100)\<close>

text \<open>\<^verbatim>\<open>enumerate\<close>: positions count from 0.\<close>

fun enumerate_from :: "int \<Rightarrow> 'a list \<Rightarrow> (int \<times> 'a) list" where
  "enumerate_from n [] = []"
| "enumerate_from n (x # xs) = (n, x) # enumerate_from (n + 1) xs"

definition enumerate :: "'a list \<Rightarrow> (int \<times> 'a) list" where
  "enumerate xs = enumerate_from 0 xs"

text \<open>The message built in lines 66--70.\<close>

definition multiple_expansion_msg :: "processor \<Rightarrow> slide \<Rightarrow> string" where
  "multiple_expansion_msg p self =
     ''Error in '' @ proc_str p @ ''.''
     @ ''A slide cannot contain more than one tag of the same ''
     @ ''type that expand into multiple slides.'' @ [nl, nl]
     @ ''Offending slide:'' @ [nl, nl]
     @ concat (slide_lines self)"

text \<open>The local variables of the inner loop (lines 48--75), with
  \<^verbatim>\<open>processor_expanded_slide\<close>, which the inner loop writes.\<close>

record scan_state =
  new_lines :: "result list"
  expanded_line :: int
  processor_expanded_slide :: bool

text \<open>The inner loop over \<^verbatim>\<open>enumerate(sub_slide)\<close>, lines 51--75.\<close>

fun scan_lines ::
  "processor \<Rightarrow> slide \<Rightarrow> (int \<times> line) list \<Rightarrow> scan_state \<Rightarrow> error + scan_state" where
  "scan_lines p self [] st = Inr st"
| "scan_lines p self ((i, l) # rest) st =
     (let new_line = process p l;
          st1 = st\<lparr>new_lines := new_lines st @ [new_line]\<rparr>
      in if is_tuple new_line then
           (if expanded_line st1 \<ge> 0 then
              Inl (SlideMachineError (multiple_expansion_msg p self))
            else
              scan_lines p self rest
                (st1\<lparr>processor_expanded_slide := True, expanded_line := i\<rparr>))
         else scan_lines p self rest st1)"

text \<open>Lines 77--94: the new sub-slides built from one scanned sub-slide.\<close>

definition recombine :: "scan_state \<Rightarrow> line list list" where
  "recombine st =
     (if expanded_line st \<ge> 0 then
        (let k = nat (expanded_line st);
             first_half = take k (new_lines st);
             second_half = drop (k + 1) (new_lines st)
         in map (\<lambda>t. map the_line first_half @ [t] @ map the_line second_half)
              (tuple_items (new_lines st ! k)))
      else [map the_line (new_lines st)])"

text \<open>The outer loop over \<^verbatim>\<open>self._sub_slides\<close>, lines 46--94. Its state is
  \<^verbatim>\<open>new_sub_slides\<close> and \<^verbatim>\<open>processor_expanded_slide\<close>.\<close>

fun apply_loop ::
  "processor \<Rightarrow> slide \<Rightarrow> line list list \<Rightarrow> line list list \<times> bool
     \<Rightarrow> error + (line list list \<times> bool)" where
  "apply_loop p self [] acc = Inr acc"
| "apply_loop p self (sub_slide # rest) (new_sub_slides, pes) =
     (case scan_lines p self (enumerate sub_slide)
             \<lparr> new_lines = [], expanded_line = - 1, processor_expanded_slide = pes \<rparr> of
        Inl e \<Rightarrow> Inl e
      | Inr st \<Rightarrow>
          apply_loop p self rest
            (new_sub_slides @ recombine st, processor_expanded_slide st))"

text \<open>\<^verbatim>\<open>Slide.apply\<close> (the name \<open>apply\<close> is an Isar keyword). It returns the
  slide object as the call leaves it, and the exception if one was raised.
  The two attribute writes (lines 97 and 100) come after the loops.\<close>

definition Slide_apply :: "processor \<Rightarrow> slide \<Rightarrow> slide \<times> error option" where
  "Slide_apply p self =
     (case apply_loop p self (sub_slides self) ([], False) of
        Inl e \<Rightarrow> (self, Some e)
      | Inr (new_sub_slides, pes) \<Rightarrow>
          (self\<lparr> sub_slides := new_sub_slides,
                 override_transition := (if pes then True else override_transition self) \<rparr>,
           None))"

text \<open>The slide after a series of \<^verbatim>\<open>apply\<close> calls, one per processor, whether
  or not a call raised (a caller that catches the exception keeps the object).\<close>

definition apply_calls :: "processor list \<Rightarrow> slide \<Rightarrow> slide" where
  "apply_calls ps self = fold (\<lambda>p s. fst (Slide_apply p s)) ps self"

subsection \<open>\<^verbatim>\<open>Slide.markdown\<close> (lines 102--104)\<close>

text \<open>The values an instance attribute of a \<^verbatim>\<open>Slide\<close> holds, and the instance
  dictionary: the attributes \<^verbatim>\<open>__init__\<close> creates (lines 31, 32, 36), which
  \<^verbatim>\<open>apply\<close> rebinds (lines 97, 100). No other code of the file sets an
  attribute of a slide.\<close>

datatype pyval =
    LineList "line list"
  | SubSlideList "line list list"
  | Boolean bool

definition slide_dict :: "slide \<Rightarrow> (string \<rightharpoonup> pyval)" where
  "slide_dict self =
     [''_slide_lines'' \<mapsto> LineList (slide_lines self),
      ''_sub_slides'' \<mapsto> SubSlideList (sub_slides self),
      ''_override_transition'' \<mapsto> Boolean (override_transition self)]"

definition getattr :: "slide \<Rightarrow> string \<Rightarrow> error + pyval" where
  "getattr self name =
     (case slide_dict self name of
        None \<Rightarrow> Inl (AttributeError name)
      | Some v \<Rightarrow> Inr v)"

definition markdown :: "slide \<Rightarrow> error + string" where
  "markdown self =
     (case getattr self ''_original_slide_lines'' of
        Inl e \<Rightarrow> Inl e
      | Inr (LineList ls) \<Rightarrow> Inr (concat ls)
      | Inr _ \<Rightarrow> Inl TypeError)"

subsection \<open>\<^verbatim>\<open>Slide.html\<close> (lines 107--136)\<close>

text \<open>\<^verbatim>\<open>str.split(sep)\<close> for a one-character separator: always at least one
  piece.\<close>

fun split_char :: "char \<Rightarrow> string \<Rightarrow> string list" where
  "split_char c [] = [[]]"
| "split_char c (x # xs) =
     (if x = c then [] # split_char c xs
      else (case split_char c xs of
              w # ws \<Rightarrow> (x # w) # ws
            | [] \<Rightarrow> [[x]]))"

text \<open>\<^verbatim>\<open>str.isspace\<close> on the code points below 256, and \<^verbatim>\<open>str.rstrip()\<close>.\<close>

definition is_space :: "char \<Rightarrow> bool" where
  "is_space c \<longleftrightarrow>
     c \<in> set [CHR 0x09, CHR 0x0A, CHR 0x0B, CHR 0x0C, CHR 0x0D,
              CHR 0x1C, CHR 0x1D, CHR 0x1E, CHR 0x1F, CHR 0x20,
              CHR 0x85, CHR 0xA0]"

definition rstrip :: "string \<Rightarrow> string" where
  "rstrip s = rev (dropWhile is_space (rev s))"

abbreviation dq :: char where
  "dq \<equiv> CHR 0x22"

text \<open>The loop of lines 119--134 with its accumulator \<^verbatim>\<open>out\<close>; the index of
  \<^verbatim>\<open>enumerate\<close> is not used by the body. The successive values of \<^verbatim>\<open>middle\<close>
  are \<open>middle\<close>, \<open>middle1\<close>, \<open>middle2\<close>, \<open>middle3\<close>.\<close>

fun html_loop ::
  "(string \<Rightarrow> string) \<Rightarrow> slide \<Rightarrow> line list list \<Rightarrow> string list \<Rightarrow> string list" where
  "html_loop md self [] out = out"
| "html_loop md self (s # rest) out =
     (let start = (if override_transition self
                   then ''<section data-transition='' @ [dq] @ ''none'' @ [dq] @ ''>'' @ [nl]
                   else ''<section>'' @ [nl]);
          middle = md (concat s);
          middle1 = split_char nl middle;
          middle2 = concat (map (\<lambda>m. ''  '' @ m @ [nl]) middle1);
          middle3 = rstrip middle2;
          end = [nl] @ ''</section>'' @ [nl, nl]
      in html_loop md self rest (out @ [start @ middle3 @ end]))"

definition html :: "(string \<Rightarrow> string) \<Rightarrow> slide \<Rightarrow> string" where
  "html md self = concat (html_loop md self (sub_slides self) [])"

subsection \<open>\<^verbatim>\<open>SlideMachine._read_md_file\<close> (lines 240--253)\<close>

text \<open>\<^verbatim>\<open>slide_break.search(line)\<close> is a predicate on lines. With the pattern of
  line 159, \<^verbatim>\<open>">>>"\<close>, which has no regular-expression operator, it holds
  when the line contains the pattern.\<close>

fun search_literal :: "string \<Rightarrow> string \<Rightarrow> bool" where
  "search_literal pat [] = (pat = [])"
| "search_literal pat (c # cs) =
     (take (length pat) (c # cs) = pat \<or> search_literal pat cs)"

definition default_slide_break :: "line \<Rightarrow> bool" where
  "default_slide_break = search_literal ''>>>''"

text \<open>The loop of lines 246--252; its state is \<^verbatim>\<open>self._slides\<close> and
  \<^verbatim>\<open>slide_content\<close>.\<close>

fun read_loop ::
  "(line \<Rightarrow> bool) \<Rightarrow> line list \<Rightarrow> slide list \<times> line list \<Rightarrow> slide list \<times> line list" where
  "read_loop slide_break [] st = st"
| "read_loop slide_break (l # rest) (slides, slide_content) =
     (if slide_break l
      then read_loop slide_break rest (slides @ [Slide_init slide_content], [])
      else read_loop slide_break rest (slides, slide_content @ [l]))"

text \<open>Lines 244--253, from the lines read from the file to \<^verbatim>\<open>self._slides\<close>.\<close>

definition read_md_file :: "(line \<Rightarrow> bool) \<Rightarrow> line list \<Rightarrow> slide list" where
  "read_md_file slide_break md_file_content =
     (case read_loop slide_break md_file_content ([], []) of
        (slides, slide_content) \<Rightarrow> slides @ [Slide_init slide_content])"

subsection \<open>The constructor on a store of list objects\<close>

text \<open>\<^verbatim>\<open>copy.deepcopy\<close> of a list of strings allocates a new list object with
  the same items (strings are immutable). The store holds the list objects
  by address; a new object takes the next address.\<close>

type_synonym addr = nat

type_synonym store = "line list list"

definition deepcopy :: "store \<Rightarrow> addr \<Rightarrow> (addr \<times> store) option" where
  "deepcopy st a =
     (if a < length st then Some (length st, st @ [st ! a]) else None)"

text \<open>A slide object whose list attributes are references into the store.\<close>

record slide_obj =
  slide_lines_at :: addr
  sub_slides_at :: "addr list"
  override_flag :: bool

text \<open>Lines 31--36 on the store: \<open>a\<close> is the address of the caller's list.\<close>

definition Slide_init_store :: "store \<Rightarrow> addr \<Rightarrow> (slide_obj \<times> store) option" where
  "Slide_init_store st a =
     (case deepcopy st a of
        None \<Rightarrow> None
      | Some (b, st1) \<Rightarrow>
          (case deepcopy st1 b of
             None \<Rightarrow> None
           | Some (c, st2) \<Rightarrow>
               Some (\<lparr> slide_lines_at = b, sub_slides_at = [c], override_flag = False \<rparr>,
                     st2)))"

text \<open>The slide a slide object stands for in a store.\<close>

definition load_slide :: "store \<Rightarrow> slide_obj \<Rightarrow> slide option" where
  "load_slide st obj =
     (if slide_lines_at obj < length st \<and> list_all (\<lambda>c. c < length st) (sub_slides_at obj)
      then Some \<lparr> slide_lines = st ! slide_lines_at obj,
                  sub_slides = map (\<lambda>c. st ! c) (sub_slides_at obj),
                  override_transition = override_flag obj \<rparr>
      else None)"

subsection \<open>Vocabulary of the properties\<close>

text \<open>A line expands under a processor when the processor returns a tuple
  for it.\<close>

definition expands :: "processor \<Rightarrow> line \<Rightarrow> bool" where
  "expands p l = is_tuple (process p l)"

definition expansions :: "processor \<Rightarrow> line list \<Rightarrow> nat" where
  "expansions p sub = length (filter (expands p) sub)"

definition first_expansion :: "processor \<Rightarrow> line list \<Rightarrow> nat" where
  "first_expansion p sub = length (takeWhile (\<lambda>l. \<not> expands p l) sub)"

definition processed :: "processor \<Rightarrow> line list \<Rightarrow> line list" where
  "processed p sub = map (\<lambda>l. the_line (process p l)) sub"

text \<open>The new sub-slides one sub-slide with at most one expanding line is
  replaced with.\<close>

definition sub_result :: "processor \<Rightarrow> line list \<Rightarrow> line list list" where
  "sub_result p sub =
     (if expansions p sub = 0 then [processed p sub]
      else map (\<lambda>t. take (first_expansion p sub) (processed p sub) @ [t]
                       @ drop (first_expansion p sub + 1) (processed p sub))
             (tuple_items (process p (sub ! first_expansion p sub))))"

text \<open>The rendering of one sub-slide in the words of the specification:
  render, indent every line by two spaces, trim, wrap.\<close>

definition section_open :: "bool \<Rightarrow> string" where
  "section_open ov =
     (if ov then ''<section data-transition='' @ [dq] @ ''none'' @ [dq] @ ''>''
      else ''<section>'')"

definition indent_lines :: "string list \<Rightarrow> string" where
  "indent_lines ms = concat (map (\<lambda>m. ''  '' @ m @ [nl]) ms)"

definition wrapped_block :: "(string \<Rightarrow> string) \<Rightarrow> bool \<Rightarrow> line list \<Rightarrow> string" where
  "wrapped_block md ov sub =
     section_open ov @ [nl]
     @ rstrip (indent_lines (split_char nl (md (concat sub))))
     @ [nl] @ ''</section>'' @ [nl] @ [nl]"

subsection \<open>Concrete inputs\<close>

text \<open>A processor that turns every line starting with \<^verbatim>\<open>IMG:\<close> into three
  alternative lines, and a two-line slide for it.\<close>

definition img_processor :: processor where
  "img_processor =
     \<lparr> process = (\<lambda>l. if take 4 l = ''IMG:'' then Tuple [''one'', ''two'', ''three'']
                       else Single l),
       proc_str = ''ImgProcessor'' \<rparr>"

definition img_slide :: slide where
  "img_slide = Slide_init [''IMG:x'', ''caption'']"

text \<open>A slide with two lines that both expand under \<open>img_processor\<close>.\<close>

definition double_img_slide :: slide where
  "double_img_slide = Slide_init [''IMG:a'', ''IMG:b'']"

text \<open>A processor whose tuples have one item, a processor that never
  returns a tuple, a processor that expands two lines of the second sub-slide
  of the expanded slide, and the slide \<open>img_slide\<close> as the pass of
  \<open>img_processor\<close> leaves it.\<close>

definition only_processor :: processor where
  "only_processor =
     \<lparr> process = (\<lambda>l. if take 4 l = ''IMG:'' then Tuple [''only''] else Single l),
       proc_str = ''OnlyProcessor'' \<rparr>"

definition plain_processor :: processor where
  "plain_processor = \<lparr> process = (\<lambda>l. Single (l @ ''!'')), proc_str = ''PlainProcessor'' \<rparr>"

definition caption_processor :: processor where
  "caption_processor =
     \<lparr> process = (\<lambda>l. if l = ''caption'' \<or> l = ''two'' then Tuple [l @ ''1'', l @ ''2'']
                       else Single l),
       proc_str = ''CaptionProcessor'' \<rparr>"

definition expanded_img_slide :: slide where
  "expanded_img_slide =
     \<lparr> slide_lines = [''IMG:x'', ''caption''],
       sub_slides = [[''one'', ''caption''], [''two'', ''caption''], [''three'', ''caption'']],
       override_transition = True \<rparr>"

text \<open>A document with a leading and a trailing delimiter line and one
  delimiter inside a longer line.\<close>

definition boundary_document :: "line list" where
  "boundary_document = [''>>>'', ''A'', ''--- >>> ---'', ''B'', ''C'', ''>>>'']"

text \<open>A stand-in for the markdown renderer: one paragraph around the text.\<close>

definition paragraph_renderer :: "string \<Rightarrow> string" where
  "paragraph_renderer t = ''<p>'' @ t @ ''</p>'' @ [nl]"

section \<open>Properties of the expansion pass\<close>

text \<open>The inner loop in closed form: it raises on the second tuple, and
  otherwise records every result and the position of the only tuple.\<close>

lemma scan_lines_general:
  "0 \<le> i \<Longrightarrow>
   scan_lines p self (enumerate_from i ls) st =
     (if 0 \<le> expanded_line st then
        (if 1 \<le> expansions p ls then Inl (SlideMachineError (multiple_expansion_msg p self))
         else Inr (st\<lparr>new_lines := new_lines st @ map (process p) ls\<rparr>))
      else
        (if 2 \<le> expansions p ls then Inl (SlideMachineError (multiple_expansion_msg p self))
         else if expansions p ls = 1 then
           Inr (st\<lparr>new_lines := new_lines st @ map (process p) ls,
                   processor_expanded_slide := True,
                   expanded_line := i + int (first_expansion p ls)\<rparr>)
         else Inr (st\<lparr>new_lines := new_lines st @ map (process p) ls\<rparr>)))"
proof (induction ls arbitrary: i st)
  case Nil
  then show ?case by (simp add: expansions_def)
next
  case (Cons l ls)
  have i1: "0 \<le> i + 1" using Cons.prems by simp
  note IH = Cons.IH [OF i1]
  show ?case
  proof (cases "expands p l")
    case True
    then show ?thesis
      using Cons.prems
      by (simp add: IH Let_def expansions_def first_expansion_def expands_def Suc_le_eq)
  next
    case False
    then show ?thesis
      by (simp add: IH Let_def expansions_def first_expansion_def expands_def)
  qed
qed

lemma first_expansion_less:
  "1 \<le> expansions p sub \<Longrightarrow> first_expansion p sub < length sub"
  unfolding expansions_def first_expansion_def
  by (induction sub) (auto split: if_splits)

lemma scan_lines_sub_slide:
  "scan_lines p self (enumerate sub)
      \<lparr> new_lines = [], expanded_line = - 1, processor_expanded_slide = pes \<rparr> =
     (if 2 \<le> expansions p sub then Inl (SlideMachineError (multiple_expansion_msg p self))
      else Inr \<lparr> new_lines = map (process p) sub,
                 expanded_line = (if expansions p sub = 1 then int (first_expansion p sub) else - 1),
                 processor_expanded_slide = (pes \<or> expansions p sub = 1) \<rparr>)"
  unfolding enumerate_def
  by (subst scan_lines_general) auto

lemma recombine_scanned:
  assumes "\<not> 2 \<le> expansions p sub"
  shows "recombine \<lparr> new_lines = map (process p) sub,
                 expanded_line = (if expansions p sub = Suc 0 then int (first_expansion p sub) else - 1),
                 processor_expanded_slide = b \<rparr> = sub_result p sub"
proof (cases "expansions p sub = 1")
  case True
  then have "first_expansion p sub < length sub"
    by (simp add: first_expansion_less)
  with True show ?thesis
    by (simp add: recombine_def sub_result_def processed_def Let_def take_map drop_map)
next
  case False
  with assms have "expansions p sub = 0" by arith
  then show ?thesis
    by (simp add: recombine_def sub_result_def processed_def)
qed

lemma apply_loop_general:
  "apply_loop p self subs (acc, pes) =
     (if \<exists>sub\<in>set subs. 2 \<le> expansions p sub
      then Inl (SlideMachineError (multiple_expansion_msg p self))
      else Inr (acc @ concat (map (sub_result p) subs),
                pes \<or> (\<exists>sub\<in>set subs. expansions p sub = 1)))"
proof (induction subs arbitrary: acc pes)
  case Nil
  then show ?case by simp
next
  case (Cons sub subs)
  show ?case
  proof (cases "2 \<le> expansions p sub")
    case True
    then show ?thesis by (simp add: scan_lines_sub_slide)
  next
    case False
    then have "apply_loop p self (sub # subs) (acc, pes) =
        apply_loop p self subs (acc @ sub_result p sub, pes \<or> expansions p sub = 1)"
      by (simp add: scan_lines_sub_slide recombine_scanned split del: if_split)
    with False show ?thesis
      by (auto simp: Cons.IH)
  qed
qed

lemma Slide_apply_general:
  "Slide_apply p self =
     (if \<exists>sub\<in>set (sub_slides self). 2 \<le> expansions p sub
      then (self, Some (SlideMachineError (multiple_expansion_msg p self)))
      else (self\<lparr> sub_slides := concat (map (sub_result p) (sub_slides self)),
                   override_transition :=
                     (override_transition self \<or> (\<exists>sub\<in>set (sub_slides self). expansions p sub = 1)) \<rparr>,
            None))"
  by (simp add: Slide_apply_def apply_loop_general)

text \<open>Counting expanding lines, by position.\<close>

lemma expansions_append:
  "expansions p (xs @ ys) = expansions p xs + expansions p ys"
  by (simp add: expansions_def)

lemma expansions_zero_iff:
  "expansions p sub = 0 \<longleftrightarrow> (\<forall>l\<in>set sub. \<not> expands p l)"
  by (simp add: expansions_def filter_empty_conv)

lemma exactly_one_expansion:
  assumes k: "k < length sub"
    and ex: "expands p (sub ! k)"
    and others: "\<forall>i<length sub. i \<noteq> k \<longrightarrow> \<not> expands p (sub ! i)"
  shows "expansions p sub = 1 \<and> first_expansion p sub = k"
proof -
  have split: "sub = take k sub @ sub ! k # drop (Suc k) sub"
    using k by (rule id_take_nth_drop)
  have before: "\<forall>l\<in>set (take k sub). \<not> expands p l"
    using others k by (auto simp: in_set_conv_nth)
  have after: "\<forall>l\<in>set (drop (Suc k) sub). \<not> expands p l"
    using others k by (auto simp: in_set_conv_nth)
  have "expansions p sub = expansions p (take k sub) + expansions p (sub ! k # drop (Suc k) sub)"
    by (subst split) (simp only: expansions_append)
  also have "\<dots> = 1"
    using before after ex
    by (simp add: expansions_def filter_empty_conv[THEN iffD2])
  finally have one: "expansions p sub = 1" .
  have "takeWhile (\<lambda>l. \<not> expands p l) sub = take k sub"
    by (subst split) (use before ex in \<open>simp add: takeWhile_append2\<close>)
  then have "first_expansion p sub = k"
    using k by (simp add: first_expansion_def)
  with one show ?thesis by simp
qed

lemma two_expansions:
  assumes "i < j" "j < length sub" "expands p (sub ! i)" "expands p (sub ! j)"
  shows "2 \<le> expansions p sub"
proof -
  have i: "i < length sub" using assms by simp
  have split: "sub = take i sub @ sub ! i # drop (Suc i) sub"
    using i by (rule id_take_nth_drop)
  have "sub ! j \<in> set (drop (Suc i) sub)"
    using assms by (auto simp: in_set_conv_nth intro!: exI[of _ "j - Suc i"])
  then have "1 \<le> expansions p (drop (Suc i) sub)"
    using assms(4) by (auto simp: expansions_def Suc_le_eq filter_empty_conv)
  moreover have "expansions p sub =
      expansions p (take i sub) + (1 + expansions p (drop (Suc i) sub))"
    by (subst split) (use assms(3) in \<open>simp add: expansions_def\<close>)
  ultimately show ?thesis by simp
qed

lemma two_expansions_conv:
  assumes "2 \<le> expansions p sub"
  shows "\<exists>i j. i < j \<and> j < length sub \<and> expands p (sub ! i) \<and> expands p (sub ! j)"
proof -
  from assms obtain x y zs where f: "filter (expands p) sub = x # y # zs"
    unfolding expansions_def
    by (cases "filter (expands p) sub"; cases "tl (filter (expands p) sub)") auto
  then obtain us vs where 1: "sub = us @ x # vs" "expands p x" "y # zs = filter (expands p) vs"
    by (auto simp: filter_eq_Cons_iff)
  then obtain us' vs' where 2: "vs = us' @ y # vs'" "expands p y"
    by (auto simp: Cons_eq_filter_iff)
  have "sub ! length us = x" using 1 by simp
  moreover have "sub ! (length us + 1 + length us') = y"
    using 1 2 by (simp add: nth_append)
  moreover have "length us + 1 + length us' < length sub" using 1 2 by simp
  ultimately show ?thesis
    using 1(2) 2(2)
    by (intro exI[of _ "length us"] exI[of _ "length us + 1 + length us'"]) simp
qed

text \<open>After a scan that did not raise, every entry of \<^verbatim>\<open>new_lines\<close> other
  than the one at \<^verbatim>\<open>expanded_line\<close> is a line: \<open>the_line\<close> is only applied to
  lines.\<close>

lemma first_expansion_expands:
  assumes "1 \<le> expansions p sub"
  shows "expands p (sub ! first_expansion p sub)"
  using first_expansion_less[OF assms] nth_length_takeWhile[of "\<lambda>l. \<not> expands p l" sub]
  by (simp add: first_expansion_def)

lemma scan_lines_halves:
  assumes scan: "scan_lines p self (enumerate sub)
        \<lparr> new_lines = [], expanded_line = - 1, processor_expanded_slide = pes \<rparr> = Inr st"
    and i: "i < length (new_lines st)" "int i \<noteq> expanded_line st"
  shows "\<not> is_tuple (new_lines st ! i)"
proof
  assume tup: "is_tuple (new_lines st ! i)"
  have le: "\<not> 2 \<le> expansions p sub"
    using scan by (auto simp: scan_lines_sub_slide split: if_splits)
  then have st: "new_lines st = map (process p) sub"
    "expanded_line st = (if expansions p sub = 1 then int (first_expansion p sub) else - 1)"
    using scan by (auto simp: scan_lines_sub_slide)
  have len: "i < length sub" using i(1) st(1) by simp
  then have ex: "expands p (sub ! i)" using tup st(1) by (simp add: expands_def)
  then have "1 \<le> expansions p sub"
    using len expansions_zero_iff[of p sub] by (auto simp: Suc_le_eq)
  with le have one: "expansions p sub = 1" by arith
  then have ne: "i \<noteq> first_expansion p sub" using i(2) st(2) by simp
  have k: "first_expansion p sub < length sub" "expands p (sub ! first_expansion p sub)"
    using one by (simp_all add: first_expansion_less first_expansion_expands)
  have "2 \<le> expansions p sub"
  proof (cases "i < first_expansion p sub")
    case True
    then show ?thesis using two_expansions[OF True k(1) ex k(2)] by simp
  next
    case False
    with ne have "first_expansion p sub < i" by simp
    then show ?thesis using two_expansions[OF _ len k(2) ex] by simp
  qed
  with le show False by simp
qed

text \<open>What a pass does to the slide when it returns, and what one sub-slide
  with a single expanding line becomes.\<close>

lemma sub_result_one:
  assumes k: "k < length S"
    and ex: "process p (S ! k) = Tuple vs"
    and others: "\<forall>i<length S. i \<noteq> k \<longrightarrow> \<not> is_tuple (process p (S ! i))"
  shows "sub_result p S = map (\<lambda>v. (processed p S)[k := v]) vs"
proof -
  have "expansions p S = 1 \<and> first_expansion p S = k"
    using k ex others by (intro exactly_one_expansion) (simp_all add: expands_def)
  moreover have "take k (processed p S) @ [v] @ drop (k + 1) (processed p S) = (processed p S)[k := v]" for v
    using k by (simp add: processed_def upd_conv_take_nth_drop)
  ultimately show ?thesis
    using ex by (simp add: sub_result_def)
qed

lemma sub_result_none:
  "\<forall>l\<in>set S. \<not> is_tuple (process p l) \<Longrightarrow> sub_result p S = [processed p S]"
  using expansions_zero_iff[of p S] by (simp add: sub_result_def expands_def)

lemma Slide_apply_returns:
  assumes "snd (Slide_apply p s) = None"
  shows "sub_slides (fst (Slide_apply p s)) = concat (map (sub_result p) (sub_slides s))"
    and "override_transition (fst (Slide_apply p s)) =
           (override_transition s \<or> (\<exists>sub\<in>set (sub_slides s). expansions p sub = 1))"
    and "\<forall>sub\<in>set (sub_slides s). \<not> 2 \<le> expansions p sub"
  using assms by (auto simp: Slide_apply_general split: if_splits)

lemma Slide_apply_part_returns:
  assumes "snd (Slide_apply p s) = None" "set subs \<subseteq> set (sub_slides s)"
  shows "snd (Slide_apply p (s\<lparr>sub_slides := subs\<rparr>)) = None"
  using assms by (auto simp: Slide_apply_general split: if_splits)

lemma processed_Single:
  "i < length S \<Longrightarrow> \<not> is_tuple (process p (S ! i)) \<Longrightarrow> Single (processed p S ! i) = process p (S ! i)"
  by (cases "process p (S ! i)") (simp_all add: processed_def)

subsection \<open>Expansion law\<close>

text \<open>
  Claim C1. Let \<open>S\<close> be a sub-slide of the slide, of \<open>n\<close> lines, and let the
  processor return a tuple \<open>vs\<close> of \<open>M\<close> lines for the line at index \<open>k\<close> and a
  single line for every other line of \<open>S\<close>. When \<^verbatim>\<open>apply\<close> returns, \<open>S\<close> has been
  replaced, at its place between the new sub-slides of the sub-slides before
  and after it, with exactly \<open>M\<close> new sub-slides \<open>N\<close>; each has \<open>n\<close> lines; the
  \<open>i\<close>-th carries \<open>vs ! i\<close> at position \<open>k\<close>, so the variants keep the order of
  the tuple; and every other position \<open>j\<close> holds the line the processor
  returned for line \<open>j\<close> of \<open>S\<close>.
\<close>

theorem expansion_law:
  assumes subs: "sub_slides s = A @ [S] @ B"
    and k: "k < length S"
    and ex: "process p (S ! k) = Tuple vs"
    and others: "\<forall>i<length S. i \<noteq> k \<longrightarrow> \<not> is_tuple (process p (S ! i))"
    and ret: "snd (Slide_apply p s) = None"
  shows "\<exists>N. sub_slides (fst (Slide_apply p s)) =
            sub_slides (fst (Slide_apply p (s\<lparr>sub_slides := A\<rparr>))) @ N
            @ sub_slides (fst (Slide_apply p (s\<lparr>sub_slides := B\<rparr>)))
          \<and> length N = length vs
          \<and> (\<forall>i<length vs.
                length (N ! i) = length S
              \<and> N ! i ! k = vs ! i
              \<and> (\<forall>j<length S. j \<noteq> k \<longrightarrow> Single (N ! i ! j) = process p (S ! j)))"
proof -
  let ?N = "map (\<lambda>v. (processed p S)[k := v]) vs"
  have A: "snd (Slide_apply p (s\<lparr>sub_slides := A\<rparr>)) = None"
    using ret subs by (intro Slide_apply_part_returns) auto
  have B: "snd (Slide_apply p (s\<lparr>sub_slides := B\<rparr>)) = None"
    using ret subs by (intro Slide_apply_part_returns) auto
  have "sub_slides (fst (Slide_apply p s)) =
          concat (map (sub_result p) A) @ sub_result p S @ concat (map (sub_result p) B)"
    using Slide_apply_returns(1)[OF ret] subs by simp
  then have 1: "sub_slides (fst (Slide_apply p s)) =
            sub_slides (fst (Slide_apply p (s\<lparr>sub_slides := A\<rparr>))) @ ?N
            @ sub_slides (fst (Slide_apply p (s\<lparr>sub_slides := B\<rparr>)))"
    using Slide_apply_returns(1)[OF A] Slide_apply_returns(1)[OF B]
      sub_result_one[OF k ex others] by simp
  have 2: "length ?N = length vs" by simp
  have 3: "length (?N ! i) = length S \<and> ?N ! i ! k = vs ! i
      \<and> (\<forall>j<length S. j \<noteq> k \<longrightarrow> Single (?N ! i ! j) = process p (S ! j))"
    if "i < length vs" for i
    using that k others by (simp add: processed_Single) (simp add: processed_def)
  from 1 2 3 show ?thesis by blast
qed

theorem expansion_law_witness:
  "process img_processor ''IMG:x'' = Tuple [''one'', ''two'', ''three'']
   \<and> \<not> is_tuple (process img_processor ''caption'')
   \<and> snd (Slide_apply img_processor img_slide) = None
   \<and> (\<exists>N. sub_slides (fst (Slide_apply img_processor img_slide)) =
            sub_slides (fst (Slide_apply img_processor (img_slide\<lparr>sub_slides := []\<rparr>))) @ N
            @ sub_slides (fst (Slide_apply img_processor (img_slide\<lparr>sub_slides := []\<rparr>)))
          \<and> length N = length [''one'', ''two'', ''three'']
          \<and> (\<forall>i<length [''one'', ''two'', ''three''].
                length (N ! i) = length [''IMG:x'', ''caption'']
              \<and> N ! i ! 0 = [''one'', ''two'', ''three''] ! i
              \<and> (\<forall>j<length [''IMG:x'', ''caption'']. j \<noteq> 0 \<longrightarrow>
                    Single (N ! i ! j) = process img_processor ([''IMG:x'', ''caption''] ! j))))
   \<and> sub_slides (fst (Slide_apply img_processor img_slide)) =
        [[''one'', ''caption''], [''two'', ''caption''], [''three'', ''caption'']]"
proof -
  have h1: "sub_slides img_slide = [] @ [[''IMG:x'', ''caption'']] @ []"
    by (simp add: img_slide_def Slide_init_def)
  have h2: "0 < length [''IMG:x'', ''caption'']" by simp
  have h3: "process img_processor ([''IMG:x'', ''caption''] ! 0) = Tuple [''one'', ''two'', ''three'']"
    by (simp add: img_processor_def)
  have h4: "\<forall>i<length [''IMG:x'', ''caption'']. i \<noteq> 0 \<longrightarrow>
         \<not> is_tuple (process img_processor ([''IMG:x'', ''caption''] ! i))"
    by (simp add: img_processor_def less_Suc_eq)
  have h5: "snd (Slide_apply img_processor img_slide) = None"
    by (simp add: Slide_apply_def img_slide_def Slide_init_def enumerate_def img_processor_def)
  have res: "sub_slides (fst (Slide_apply img_processor img_slide)) =
        [[''one'', ''caption''], [''two'', ''caption''], [''three'', ''caption'']]"
    by (simp add: Slide_apply_def img_slide_def Slide_init_def enumerate_def img_processor_def
        recombine_def)
  have g: "\<not> is_tuple (process img_processor ''caption'')"
    by (simp add: img_processor_def)
  from expansion_law [OF h1 h2 h3 h4 h5] h3 h5 res g show ?thesis
    by simp
qed

text \<open>The original lines stay what the constructor stored, and the pass
  raises exactly when a sub-slide has two expanding lines.\<close>

lemma slide_lines_Slide_apply: "slide_lines (fst (Slide_apply p s)) = slide_lines s"
  by (simp add: Slide_apply_general)

lemma slide_lines_apply_calls: "slide_lines (apply_calls ps s) = slide_lines s"
  unfolding apply_calls_def
  by (induction ps arbitrary: s) (simp_all add: slide_lines_Slide_apply)

lemma Slide_apply_raises_iff:
  "snd (Slide_apply p s) = Some e \<longleftrightarrow>
     e = SlideMachineError (multiple_expansion_msg p s)
     \<and> (\<exists>sub\<in>set (sub_slides s). 2 \<le> expansions p sub)"
  by (auto simp: Slide_apply_general)

subsection \<open>Multiple expansion\<close>

text \<open>
  Claim C2. If two distinct lines of one sub-slide both get a tuple from the
  processor, \<^verbatim>\<open>apply\<close> raises \<^verbatim>\<open>SlideMachineError\<close>, and the message holds the
  processor's printed name and ends with the concatenated original lines of
  the slide, which are the lines the slide was constructed from whatever
  passes ran before. If no sub-slide has two such lines, \<^verbatim>\<open>apply\<close> does not
  raise.
\<close>

theorem multiple_expansion_error:
  "((\<exists>sub\<in>set (sub_slides s). \<exists>i j. i < j \<and> j < length sub
        \<and> is_tuple (process p (sub ! i)) \<and> is_tuple (process p (sub ! j)))
     \<longrightarrow> snd (Slide_apply p s) =
          Some (SlideMachineError
            (''Error in '' @ proc_str p
             @ ''.A slide cannot contain more than one tag of the same type that expand into multiple slides.''
             @ [nl, nl] @ ''Offending slide:'' @ [nl, nl] @ concat (slide_lines s))))
   \<and> ((\<forall>sub\<in>set (sub_slides s). \<forall>i j. i < j \<and> j < length sub
        \<and> is_tuple (process p (sub ! i)) \<longrightarrow> \<not> is_tuple (process p (sub ! j)))
     \<longrightarrow> snd (Slide_apply p s) = None)
   \<and> (s = apply_calls ps (Slide_init L) \<longrightarrow> slide_lines s = L)"
proof (intro conjI impI)
  assume "\<exists>sub\<in>set (sub_slides s). \<exists>i j. i < j \<and> j < length sub
        \<and> is_tuple (process p (sub ! i)) \<and> is_tuple (process p (sub ! j))"
  then have "\<exists>sub\<in>set (sub_slides s). 2 \<le> expansions p sub"
    using two_expansions[of _ _ _ p] unfolding expands_def by blast
  then show "snd (Slide_apply p s) =
          Some (SlideMachineError
            (''Error in '' @ proc_str p
             @ ''.A slide cannot contain more than one tag of the same type that expand into multiple slides.''
             @ [nl, nl] @ ''Offending slide:'' @ [nl, nl] @ concat (slide_lines s)))"
    by (simp add: Slide_apply_general multiple_expansion_msg_def)
next
  assume a: "\<forall>sub\<in>set (sub_slides s). \<forall>i j. i < j \<and> j < length sub
        \<and> is_tuple (process p (sub ! i)) \<longrightarrow> \<not> is_tuple (process p (sub ! j))"
  have "\<not> 2 \<le> expansions p sub" if "sub \<in> set (sub_slides s)" for sub
    using two_expansions_conv[of p sub] a that unfolding expands_def by blast
  then show "snd (Slide_apply p s) = None"
    by (simp add: Slide_apply_general)
next
  assume "s = apply_calls ps (Slide_init L)"
  then show "slide_lines s = L"
    by (simp add: slide_lines_apply_calls Slide_init_def)
qed

theorem multiple_expansion_error_witness:
  "snd (Slide_apply img_processor double_img_slide) =
     Some (SlideMachineError
       (''Error in ImgProcessor.A slide cannot contain more than one tag of the same type that expand into multiple slides.''
        @ [nl, nl] @ ''Offending slide:'' @ [nl, nl] @ ''IMG:aIMG:b''))
   \<and> snd (Slide_apply img_processor img_slide) = None"
proof -
  have two: "\<exists>sub\<in>set (sub_slides double_img_slide). \<exists>i j. i < j \<and> j < length sub
        \<and> is_tuple (process img_processor (sub ! i)) \<and> is_tuple (process img_processor (sub ! j))"
    by (rule bexI[of _ "[''IMG:a'', ''IMG:b'']"], rule exI[of _ 0], rule exI[of _ 1])
      (simp_all add: double_img_slide_def Slide_init_def img_processor_def)
  have one: "\<forall>sub\<in>set (sub_slides img_slide). \<forall>i j. i < j \<and> j < length sub
        \<and> is_tuple (process img_processor (sub ! i)) \<longrightarrow> \<not> is_tuple (process img_processor (sub ! j))"
    by (auto simp: img_slide_def Slide_init_def img_processor_def less_Suc_eq)
  from multiple_expansion_error [of double_img_slide img_processor "[]" "[]"] two
  have "snd (Slide_apply img_processor double_img_slide) =
          Some (SlideMachineError
            (''Error in '' @ proc_str img_processor
             @ ''.A slide cannot contain more than one tag of the same type that expand into multiple slides.''
             @ [nl, nl] @ ''Offending slide:'' @ [nl, nl] @ concat (slide_lines double_img_slide)))"
    by blast
  moreover from multiple_expansion_error [of img_slide img_processor "[]" "[]"] one
  have "snd (Slide_apply img_processor img_slide) = None"
    by blast
  ultimately show ?thesis
    by (simp add: img_processor_def double_img_slide_def Slide_init_def)
qed

text \<open>Passes without a tuple, and the flag under a pass.\<close>

lemma expansions_pos_iff:
  "1 \<le> expansions p sub \<longleftrightarrow> (\<exists>l\<in>set sub. is_tuple (process p l))"
  using expansions_zero_iff[of p sub] by (auto simp: expands_def Suc_le_eq)

lemma concat_sub_result_none:
  "\<forall>sub\<in>set X. \<forall>l\<in>set sub. \<not> is_tuple (process p l) \<Longrightarrow>
   concat (map (sub_result p) X) = map (processed p) X"
  by (induction X) (simp_all add: sub_result_none)

lemma override_transition_Slide_apply:
  "override_transition s \<Longrightarrow> override_transition (fst (Slide_apply p s))"
  by (simp add: Slide_apply_general)

lemma override_transition_apply_calls:
  "override_transition s \<Longrightarrow> override_transition (apply_calls ps s)"
  unfolding apply_calls_def
  by (induction ps arbitrary: s) (simp_all add: override_transition_Slide_apply)

subsection \<open>The override-transition flag\<close>

text \<open>
  Claim C4. The flag \<^verbatim>\<open>_override_transition\<close> is false in a slide as constructed.
  After a call of \<^verbatim>\<open>apply\<close> that returns and in which some line of some
  sub-slide got a tuple from the processor, the flag is true. A flag that is
  true stays true under any further call of \<^verbatim>\<open>apply\<close>, returning or raising,
  and under any series of such calls, whatever number of sub-slides they
  leave.
\<close>

theorem override_transition_sticky:
  "override_transition (Slide_init L) = False
   \<and> (snd (Slide_apply p s) = None
        \<longrightarrow> (\<exists>sub\<in>set (sub_slides s). \<exists>l\<in>set sub. is_tuple (process p l))
        \<longrightarrow> override_transition (fst (Slide_apply p s)))
   \<and> (override_transition s \<longrightarrow> override_transition (fst (Slide_apply p s)))
   \<and> (override_transition s \<longrightarrow> override_transition (apply_calls ps s))"
proof (intro conjI impI)
  show "override_transition (Slide_init L) = False"
    by (simp add: Slide_init_def)
next
  assume ret: "snd (Slide_apply p s) = None"
    and ex: "\<exists>sub\<in>set (sub_slides s). \<exists>l\<in>set sub. is_tuple (process p l)"
  from ex obtain sub where sub: "sub \<in> set (sub_slides s)" "1 \<le> expansions p sub"
    using expansions_pos_iff by blast
  moreover have "\<not> 2 \<le> expansions p sub"
    using Slide_apply_returns(3)[OF ret] sub(1) by blast
  ultimately have "expansions p sub = 1" by arith
  with sub(1) show "override_transition (fst (Slide_apply p s))"
    using Slide_apply_returns(2)[OF ret] by blast
next
  assume "override_transition s"
  then show "override_transition (fst (Slide_apply p s))"
    by (rule override_transition_Slide_apply)
next
  assume "override_transition s"
  then show "override_transition (apply_calls ps s)"
    by (rule override_transition_apply_calls)
qed


theorem override_transition_sticky_witness:
  "override_transition (Slide_init [''IMG:x'']) = False
   \<and> snd (Slide_apply only_processor (Slide_init [''IMG:x''])) = None
   \<and> override_transition (fst (Slide_apply only_processor (Slide_init [''IMG:x''])))
   \<and> sub_slides (fst (Slide_apply only_processor (Slide_init [''IMG:x'']))) = [[''only'']]
   \<and> override_transition (fst (Slide_apply plain_processor expanded_img_slide))
   \<and> override_transition (apply_calls [plain_processor, caption_processor] expanded_img_slide)"
proof -
  let ?s = "Slide_init [''IMG:x'']"
  have ret: "snd (Slide_apply only_processor ?s) = None"
    by (simp add: Slide_apply_def Slide_init_def enumerate_def only_processor_def)
  have ex: "\<exists>sub\<in>set (sub_slides ?s). \<exists>l\<in>set sub. is_tuple (process only_processor l)"
    by (simp add: Slide_init_def only_processor_def)
  have ov: "override_transition expanded_img_slide"
    by (simp add: expanded_img_slide_def)
  have subs: "sub_slides (fst (Slide_apply only_processor ?s)) = [[''only'']]"
    by (simp add: Slide_apply_def Slide_init_def enumerate_def only_processor_def recombine_def)
  from override_transition_sticky [of "[''IMG:x'']" only_processor ?s "[]"] ret ex
  have 1: "override_transition (Slide_init [''IMG:x'']) = False"
    and 2: "override_transition (fst (Slide_apply only_processor ?s))"
    by blast+
  from override_transition_sticky
    [of "[]" plain_processor expanded_img_slide "[plain_processor, caption_processor]"] ov
  have 3: "override_transition (fst (Slide_apply plain_processor expanded_img_slide))"
    and 4: "override_transition (apply_calls [plain_processor, caption_processor] expanded_img_slide)"
    by blast+
  from 1 2 3 4 ret subs show ?thesis by simp
qed

subsection \<open>Tuples of length one\<close>

text \<open>
  Claim C5. A tuple of one item for line \<open>k\<close> of a sub-slide \<open>S\<close> (every other
  line of \<open>S\<close> getting a single line) counts as an expansion: the scan of \<open>S\<close>
  records \<open>k\<close> as the expanded line and sets \<^verbatim>\<open>processor_expanded_slide\<close>, the
  recombination splits at \<open>k\<close> and rejoins the two halves around the item, the
  slide's flag is true after the call, and \<open>S\<close> is replaced with exactly one
  new sub-slide, so that the number of sub-slides is unchanged when no other
  sub-slide has a tuple. A result that is a single line does not count: the
  scan step for it leaves the expanded line and the flag as they were, and a
  pass in which every result is a single line leaves the slide's flag as it
  was.
\<close>

theorem length_one_expansion:
  assumes subs: "sub_slides s = A @ [S] @ B"
    and k: "k < length S"
    and ex: "process p (S ! k) = Tuple [v]"
    and others: "\<forall>i<length S. i \<noteq> k \<longrightarrow> \<not> is_tuple (process p (S ! i))"
    and ret: "snd (Slide_apply p s) = None"
  shows "(\<exists>st. scan_lines p s (enumerate S)
                 \<lparr> new_lines = [], expanded_line = - 1, processor_expanded_slide = False \<rparr> = Inr st
              \<and> expanded_line st = int k
              \<and> processor_expanded_slide st
              \<and> recombine st =
                  [map the_line (take k (new_lines st)) @ [v]
                   @ map the_line (drop (k + 1) (new_lines st))])
       \<and> override_transition (fst (Slide_apply p s))
       \<and> (\<exists>N. sub_slides (fst (Slide_apply p s)) =
                sub_slides (fst (Slide_apply p (s\<lparr>sub_slides := A\<rparr>))) @ [N]
                @ sub_slides (fst (Slide_apply p (s\<lparr>sub_slides := B\<rparr>)))
              \<and> length N = length S
              \<and> N ! k = v
              \<and> (\<forall>j<length S. j \<noteq> k \<longrightarrow> Single (N ! j) = process p (S ! j)))
       \<and> ((\<forall>sub\<in>set (A @ B). \<forall>l\<in>set sub. \<not> is_tuple (process p l))
            \<longrightarrow> length (sub_slides (fst (Slide_apply p s))) = length (sub_slides s))
       \<and> (\<not> is_tuple (process q l)
            \<longrightarrow> scan_lines q s' [(i, l)] st = Inr (st\<lparr>new_lines := new_lines st @ [process q l]\<rparr>))
       \<and> ((\<forall>sub\<in>set (sub_slides s'). \<forall>l\<in>set sub. \<not> is_tuple (process q l))
            \<longrightarrow> override_transition (fst (Slide_apply q s')) = override_transition s')"
proof -
  have one: "expansions p S = 1" and first: "first_expansion p S = k"
    using exactly_one_expansion[of k S p] k ex others by (simp_all add: expands_def)
  have S_in: "S \<in> set (sub_slides s)" using subs by simp
  have scan: "scan_lines p s (enumerate S)
                 \<lparr> new_lines = [], expanded_line = - 1, processor_expanded_slide = False \<rparr> =
              Inr \<lparr> new_lines = map (process p) S, expanded_line = int k,
                    processor_expanded_slide = True \<rparr>"
    using one first by (simp add: scan_lines_sub_slide)
  have rec: "recombine \<lparr> new_lines = map (process p) S, expanded_line = int k,
                    processor_expanded_slide = True \<rparr> =
        [map the_line (take k (map (process p) S)) @ [v]
         @ map the_line (drop (k + 1) (map (process p) S))]"
    using k ex by (simp add: recombine_def)
  have c1: "\<exists>st. scan_lines p s (enumerate S)
                 \<lparr> new_lines = [], expanded_line = - 1, processor_expanded_slide = False \<rparr> = Inr st
              \<and> expanded_line st = int k
              \<and> processor_expanded_slide st
              \<and> recombine st =
                  [map the_line (take k (new_lines st)) @ [v]
                   @ map the_line (drop (k + 1) (new_lines st))]"
    using scan rec by simp
  have c2: "override_transition (fst (Slide_apply p s))"
    using Slide_apply_returns(2)[OF ret] S_in one by blast
  let ?N = "(processed p S)[k := v]"
  have A: "snd (Slide_apply p (s\<lparr>sub_slides := A\<rparr>)) = None"
    using ret subs by (intro Slide_apply_part_returns) auto
  have B: "snd (Slide_apply p (s\<lparr>sub_slides := B\<rparr>)) = None"
    using ret subs by (intro Slide_apply_part_returns) auto
  have res: "sub_slides (fst (Slide_apply p s)) =
          concat (map (sub_result p) A) @ [?N] @ concat (map (sub_result p) B)"
    using Slide_apply_returns(1)[OF ret] subs sub_result_one[OF k ex others] by simp
  then have 1: "sub_slides (fst (Slide_apply p s)) =
            sub_slides (fst (Slide_apply p (s\<lparr>sub_slides := A\<rparr>))) @ [?N]
            @ sub_slides (fst (Slide_apply p (s\<lparr>sub_slides := B\<rparr>)))"
    using Slide_apply_returns(1)[OF A] Slide_apply_returns(1)[OF B] by simp
  have 2: "length ?N = length S \<and> ?N ! k = v
      \<and> (\<forall>j<length S. j \<noteq> k \<longrightarrow> Single (?N ! j) = process p (S ! j))"
    using k others by (simp add: processed_Single) (simp add: processed_def)
  have c3: "\<exists>N. sub_slides (fst (Slide_apply p s)) =
                sub_slides (fst (Slide_apply p (s\<lparr>sub_slides := A\<rparr>))) @ [N]
                @ sub_slides (fst (Slide_apply p (s\<lparr>sub_slides := B\<rparr>)))
              \<and> length N = length S
              \<and> N ! k = v
              \<and> (\<forall>j<length S. j \<noteq> k \<longrightarrow> Single (N ! j) = process p (S ! j))"
    using 1 2 by blast
  have c4: "length (sub_slides (fst (Slide_apply p s))) = length (sub_slides s)"
    if none: "\<forall>sub\<in>set (A @ B). \<forall>l\<in>set sub. \<not> is_tuple (process p l)"
  proof -
    have "concat (map (sub_result p) A) = map (processed p) A"
      and "concat (map (sub_result p) B) = map (processed p) B"
      using none by (auto intro!: concat_sub_result_none)
    then show ?thesis using res subs by simp
  qed
  have c5: "scan_lines q s' [(i, l)] st = Inr (st\<lparr>new_lines := new_lines st @ [process q l]\<rparr>)"
    if "\<not> is_tuple (process q l)"
    using that by simp
  have c6: "override_transition (fst (Slide_apply q s')) = override_transition s'"
    if "\<forall>sub\<in>set (sub_slides s'). \<forall>l\<in>set sub. \<not> is_tuple (process q l)"
  proof -
    have "\<forall>sub\<in>set (sub_slides s'). expansions q sub = 0"
      using that by (simp add: expansions_zero_iff expands_def)
    then show ?thesis by (simp add: Slide_apply_general)
  qed
  from c1 c2 c3 c4 c5 c6 show ?thesis by blast
qed

theorem length_one_expansion_witness:
  "process only_processor ''IMG:x'' = Tuple [''only'']
   \<and> \<not> is_tuple (process only_processor ''caption'')
   \<and> snd (Slide_apply only_processor img_slide) = None
   \<and> override_transition (fst (Slide_apply only_processor img_slide))
   \<and> length (sub_slides (fst (Slide_apply only_processor img_slide))) = length (sub_slides img_slide)
   \<and> sub_slides (fst (Slide_apply only_processor img_slide)) = [[''only'', ''caption'']]
   \<and> override_transition (fst (Slide_apply plain_processor img_slide)) = override_transition img_slide"
proof -
  have h1: "sub_slides img_slide = [] @ [[''IMG:x'', ''caption'']] @ []"
    by (simp add: img_slide_def Slide_init_def)
  have h2: "0 < length [''IMG:x'', ''caption'']" by simp
  have h3: "process only_processor ([''IMG:x'', ''caption''] ! 0) = Tuple [''only'']"
    by (simp add: only_processor_def)
  have h4: "\<forall>i<length [''IMG:x'', ''caption'']. i \<noteq> 0 \<longrightarrow>
         \<not> is_tuple (process only_processor ([''IMG:x'', ''caption''] ! i))"
    by (simp add: only_processor_def less_Suc_eq)
  have h5: "snd (Slide_apply only_processor img_slide) = None"
    by (simp add: Slide_apply_def img_slide_def Slide_init_def enumerate_def only_processor_def)
  have h6: "\<forall>sub\<in>set ([] @ []). \<forall>l\<in>set sub. \<not> is_tuple (process only_processor l)"
    by simp
  have h7: "\<forall>sub\<in>set (sub_slides img_slide). \<forall>l\<in>set sub. \<not> is_tuple (process plain_processor l)"
    by (simp add: plain_processor_def)
  have g: "\<not> is_tuple (process only_processor ''caption'')"
    by (simp add: only_processor_def)
  have res: "sub_slides (fst (Slide_apply only_processor img_slide)) = [[''only'', ''caption'']]"
    by (simp add: Slide_apply_def img_slide_def Slide_init_def enumerate_def only_processor_def
        recombine_def)
  from length_one_expansion [OF h1 h2 h3 h4 h5, of plain_processor "''x''" img_slide 0
      "\<lparr> new_lines = [], expanded_line = - 1, processor_expanded_slide = False \<rparr>"] h6 h7
  have "override_transition (fst (Slide_apply only_processor img_slide))"
    and "length (sub_slides (fst (Slide_apply only_processor img_slide))) = length (sub_slides img_slide)"
    and "override_transition (fst (Slide_apply plain_processor img_slide)) = override_transition img_slide"
    by blast+
  with h3 h5 g res show ?thesis by simp
qed

subsection \<open>A pass that never expands\<close>

text \<open>
  Claim C6. For a processor that returns a single line for every line,
  \<^verbatim>\<open>apply\<close> returns, the slide has as many sub-slides as before, each new
  sub-slide is as long as the old one at its position, line \<open>i\<close> of it is what
  the processor returned for line \<open>i\<close> of the old one, and the flag is
  unchanged.
\<close>

theorem non_expanding_pass:
  assumes single: "\<forall>l. \<not> is_tuple (process p l)"
  shows "snd (Slide_apply p s) = None
       \<and> length (sub_slides (fst (Slide_apply p s))) = length (sub_slides s)
       \<and> (\<forall>j<length (sub_slides s).
             length (sub_slides (fst (Slide_apply p s)) ! j) = length (sub_slides s ! j)
           \<and> (\<forall>i<length (sub_slides s ! j).
                 Single (sub_slides (fst (Slide_apply p s)) ! j ! i) = process p (sub_slides s ! j ! i)))
       \<and> override_transition (fst (Slide_apply p s)) = override_transition s"
proof -
  have zero: "\<forall>sub\<in>set (sub_slides s). expansions p sub = 0"
    using single by (simp add: expansions_zero_iff expands_def)
  have res: "sub_slides (fst (Slide_apply p s)) = map (processed p) (sub_slides s)"
    using zero single by (simp add: Slide_apply_general concat_sub_result_none)
  have "Single (processed p sub ! i) = process p (sub ! i)" if "i < length sub" for sub i
    using that single by (simp add: processed_Single)
  then have lines: "\<forall>j<length (sub_slides s).
             length (sub_slides (fst (Slide_apply p s)) ! j) = length (sub_slides s ! j)
           \<and> (\<forall>i<length (sub_slides s ! j).
                 Single (sub_slides (fst (Slide_apply p s)) ! j ! i) = process p (sub_slides s ! j ! i))"
    by (simp add: res) (simp add: processed_def)
  from zero res lines show ?thesis
    by (simp add: Slide_apply_general)
qed

theorem non_expanding_pass_witness:
  "snd (Slide_apply plain_processor expanded_img_slide) = None
   \<and> length (sub_slides (fst (Slide_apply plain_processor expanded_img_slide))) = 3
   \<and> sub_slides (fst (Slide_apply plain_processor expanded_img_slide)) =
        [[''one!'', ''caption!''], [''two!'', ''caption!''], [''three!'', ''caption!'']]
   \<and> override_transition (fst (Slide_apply plain_processor expanded_img_slide)) = True
   \<and> override_transition (fst (Slide_apply plain_processor img_slide)) = False"
proof -
  have h: "\<forall>l. \<not> is_tuple (process plain_processor l)"
    by (simp add: plain_processor_def)
  have res: "sub_slides (fst (Slide_apply plain_processor expanded_img_slide)) =
        [[''one!'', ''caption!''], [''two!'', ''caption!''], [''three!'', ''caption!'']]"
    by (simp add: Slide_apply_def expanded_img_slide_def enumerate_def plain_processor_def
        recombine_def)
  from non_expanding_pass [OF h, of expanded_img_slide] non_expanding_pass [OF h, of img_slide] res
  show ?thesis
    by (simp add: expanded_img_slide_def img_slide_def Slide_init_def)
qed

subsection \<open>The slide after a raise\<close>

text \<open>
  Claim C10. When \<^verbatim>\<open>apply\<close> raises, the exception is the multiple-expansion
  error and the slide is the slide before the call: its list of sub-slides is
  the old one, not the part of the new one built so far, and its flag has the
  value it had.
\<close>

theorem apply_atomic_on_error:
  assumes "snd (Slide_apply p s) = Some e"
  shows "e = SlideMachineError (multiple_expansion_msg p s)
       \<and> fst (Slide_apply p s) = s
       \<and> sub_slides (fst (Slide_apply p s)) = sub_slides s
       \<and> override_transition (fst (Slide_apply p s)) = override_transition s"
  using assms by (auto simp: Slide_apply_general split: if_splits)

theorem apply_atomic_on_error_witness:
  "snd (Slide_apply caption_processor expanded_img_slide) =
     Some (SlideMachineError (multiple_expansion_msg caption_processor expanded_img_slide))
   \<and> sub_slides (fst (Slide_apply caption_processor expanded_img_slide)) =
        [[''one'', ''caption''], [''two'', ''caption''], [''three'', ''caption'']]
   \<and> override_transition (fst (Slide_apply caption_processor expanded_img_slide)) = True
   \<and> sub_slides (fst (Slide_apply img_processor double_img_slide)) = [[''IMG:a'', ''IMG:b'']]
   \<and> override_transition (fst (Slide_apply img_processor double_img_slide)) = False"
proof -
  have h1: "snd (Slide_apply caption_processor expanded_img_slide) =
     Some (SlideMachineError (multiple_expansion_msg caption_processor expanded_img_slide))"
    by (simp add: Slide_apply_def expanded_img_slide_def enumerate_def caption_processor_def
        recombine_def)
  have h2: "snd (Slide_apply img_processor double_img_slide) =
     Some (SlideMachineError (multiple_expansion_msg img_processor double_img_slide))"
    by (simp add: Slide_apply_def double_img_slide_def Slide_init_def enumerate_def
        img_processor_def)
  from apply_atomic_on_error [OF h1] apply_atomic_on_error [OF h2] h1
  show ?thesis
    by (simp add: expanded_img_slide_def double_img_slide_def Slide_init_def)
qed

section \<open>The original lines\<close>

text \<open>What a pass writes, and the constructor on the store.\<close>

lemma Slide_apply_frame:
  "fst (Slide_apply p s) =
     s\<lparr> sub_slides := sub_slides (fst (Slide_apply p s)),
        override_transition := override_transition (fst (Slide_apply p s)) \<rparr>"
  by (simp add: Slide_apply_general)

lemma Slide_init_store_fresh:
  assumes "a < length st"
  shows "Slide_init_store st a =
           Some (\<lparr> slide_lines_at = length st, sub_slides_at = [Suc (length st)],
                   override_flag = False \<rparr>,
                 st @ [st ! a, st ! a])"
  using assms by (simp add: Slide_init_store_def deepcopy_def nth_append)

subsection \<open>The original lines are never written\<close>

text \<open>
  Claim C9. The slide stores the lines it is constructed from; a call of
  \<^verbatim>\<open>apply\<close>, returning or raising, leaves them as they are and changes at most
  the list of sub-slides and the flag; so after any series of calls the
  stored lines are those of the construction. On the store, the constructor
  copies the caller's list into new list objects, and a later write to the
  caller's list, or to any list object that existed before, does not change
  the slide.
\<close>

theorem original_lines_immutable:
  "slide_lines (Slide_init L) = L
   \<and> slide_lines (fst (Slide_apply p s)) = slide_lines s
   \<and> fst (Slide_apply p s) =
       s\<lparr> sub_slides := sub_slides (fst (Slide_apply p s)),
          override_transition := override_transition (fst (Slide_apply p s)) \<rparr>
   \<and> slide_lines (apply_calls ps (Slide_init L)) = L
   \<and> (a < length st \<longrightarrow>
        (\<exists>obj st'. Slide_init_store st a = Some (obj, st')
           \<and> load_slide st' obj = Some (Slide_init (st ! a))
           \<and> (\<forall>b xs. b < length st \<longrightarrow>
                 load_slide (st'[b := xs]) obj = Some (Slide_init (st ! a)))))"
proof (intro conjI impI)
  show "slide_lines (Slide_init L) = L" by (simp add: Slide_init_def)
  show "slide_lines (fst (Slide_apply p s)) = slide_lines s"
    by (rule slide_lines_Slide_apply)
  show "fst (Slide_apply p s) =
       s\<lparr> sub_slides := sub_slides (fst (Slide_apply p s)),
          override_transition := override_transition (fst (Slide_apply p s)) \<rparr>"
    by (rule Slide_apply_frame)
  show "slide_lines (apply_calls ps (Slide_init L)) = L"
    by (simp add: slide_lines_apply_calls Slide_init_def)
next
  assume a: "a < length st"
  let ?obj = "\<lparr> slide_lines_at = length st, sub_slides_at = [Suc (length st)],
                 override_flag = False \<rparr>"
  let ?st' = "st @ [st ! a, st ! a]"
  have 1: "Slide_init_store st a = Some (?obj, ?st')"
    using a by (rule Slide_init_store_fresh)
  have 2: "load_slide ?st' ?obj = Some (Slide_init (st ! a))"
    by (simp add: load_slide_def Slide_init_def nth_append)
  have 3: "load_slide (?st'[b := xs]) ?obj = Some (Slide_init (st ! a))"
    if "b < length st" for b xs
    using that by (simp add: load_slide_def Slide_init_def nth_append list_update_append)
  from 1 2 3 show "\<exists>obj st'. Slide_init_store st a = Some (obj, st')
           \<and> load_slide st' obj = Some (Slide_init (st ! a))
           \<and> (\<forall>b xs. b < length st \<longrightarrow>
                 load_slide (st'[b := xs]) obj = Some (Slide_init (st ! a)))"
    by blast
qed

theorem original_lines_immutable_witness:
  "slide_lines (fst (Slide_apply img_processor img_slide)) = [''IMG:x'', ''caption'']
   \<and> slide_lines (apply_calls [img_processor, caption_processor, plain_processor] img_slide)
       = [''IMG:x'', ''caption'']
   \<and> (\<exists>obj st'. Slide_init_store [[''A'', ''B'']] 0 = Some (obj, st')
         \<and> load_slide (st'[0 := [''Z'']]) obj = Some (Slide_init [''A'', ''B'']))"
proof -
  have h: "(0::nat) < length [[''A'', ''B'']]" by simp
  from original_lines_immutable
    [of "[''IMG:x'', ''caption'']" img_processor img_slide
       "[img_processor, caption_processor, plain_processor]" 0 "[[''A'', ''B'']]"] h
  have 1: "slide_lines (fst (Slide_apply img_processor img_slide)) = slide_lines img_slide"
    and 2: "slide_lines (apply_calls [img_processor, caption_processor, plain_processor]
              (Slide_init [''IMG:x'', ''caption''])) = [''IMG:x'', ''caption'']"
    and 3: "\<exists>obj st'. Slide_init_store [[''A'', ''B'']] 0 = Some (obj, st')
           \<and> load_slide st' obj = Some (Slide_init ([[''A'', ''B'']] ! 0))
           \<and> (\<forall>b xs. b < length [[''A'', ''B'']] \<longrightarrow>
                 load_slide (st'[b := xs]) obj = Some (Slide_init ([[''A'', ''B'']] ! 0)))"
    by blast+
  from 3 have "\<exists>obj st'. Slide_init_store [[''A'', ''B'']] 0 = Some (obj, st')
         \<and> load_slide (st'[0 := [''Z'']]) obj = Some (Slide_init [''A'', ''B''])"
    by fastforce
  with 1 2 show ?thesis
    by (simp add: img_slide_def Slide_init_def)
qed

subsection \<open>The property \<^verbatim>\<open>markdown\<close>\<close>

text \<open>The property reads the attribute \<^verbatim>\<open>_original_slide_lines\<close>, which no
  slide has: the constructor stores the lines as \<^verbatim>\<open>_slide_lines\<close>.\<close>

lemma markdown_raises:
  "markdown s = Inl (AttributeError ''_original_slide_lines'')"
  by (simp add: markdown_def getattr_def slide_dict_def)

text \<open>
  Claim C8 says that \<^verbatim>\<open>markdown\<close> returns the concatenated original lines and
  never fails. On the slide constructed from the one line \<^verbatim>\<open>"A\n"\<close> the
  property raises \<^verbatim>\<open>AttributeError\<close> and does not return \<^verbatim>\<open>"A\n"\<close>.
\<close>

theorem markdown_attribute_error:
  "markdown (Slide_init [''A'' @ [nl]]) = Inl (AttributeError ''_original_slide_lines'')
   \<and> markdown (Slide_init [''A'' @ [nl]]) \<noteq> Inr (''A'' @ [nl])"
  by (simp add: markdown_raises)

section \<open>Splitting a document into slides\<close>

text \<open>The loop of \<^verbatim>\<open>_read_md_file\<close>: the slides already closed are a prefix
  of the result, and a delimiter line closes the slide being collected.\<close>

lemma read_loop_prefix:
  "read_loop brk ls (S @ slides, content) =
     (S @ fst (read_loop brk ls (slides, content)), snd (read_loop brk ls (slides, content)))"
  by (induction ls arbitrary: slides content) simp_all

lemma read_loop_append:
  "read_loop brk (xs @ ys) st = read_loop brk ys (read_loop brk xs st)"
proof (induction xs arbitrary: st)
  case Nil
  then show ?case by simp
next
  case (Cons x xs)
  then show ?case by (cases st) simp
qed

lemma read_loop_no_break:
  "filter brk ls = [] \<Longrightarrow> read_loop brk ls (slides, content) = (slides, content @ ls)"
  by (induction ls arbitrary: content) (simp_all split: if_splits)

lemma read_loop_count:
  "length (fst (read_loop brk ls (slides, content))) = length slides + length (filter brk ls)"
  by (induction ls arbitrary: slides content) simp_all

lemma read_loop_lines:
  "concat (map slide_lines (fst (read_loop brk ls (slides, content))))
     @ snd (read_loop brk ls (slides, content)) =
   concat (map slide_lines slides) @ content @ filter (\<lambda>l. \<not> brk l) ls"
  by (induction ls arbitrary: slides content) (simp_all add: Slide_init_def)

lemma read_loop_fresh:
  "\<forall>s\<in>set slides. sub_slides s = [slide_lines s] \<and> override_transition s = False \<Longrightarrow>
   \<forall>s\<in>set (fst (read_loop brk ls (slides, content))).
      sub_slides s = [slide_lines s] \<and> override_transition s = False"
proof (induction ls arbitrary: slides content)
  case Nil
  then show ?case by simp
next
  case (Cons l ls)
  show ?case
  proof (cases "brk l")
    case True
    have "\<forall>s\<in>set (slides @ [Slide_init content]).
            sub_slides s = [slide_lines s] \<and> override_transition s = False"
      using Cons.prems by (simp add: Slide_init_def)
    from Cons.IH[OF this] True show ?thesis by simp
  next
    case False
    with Cons.IH[OF Cons.prems] show ?thesis by simp
  qed
qed

lemma read_md_file_break:
  assumes "brk d"
  shows "read_md_file brk (xs @ d # ys) = read_md_file brk xs @ read_md_file brk ys"
proof -
  obtain S c where xs: "read_loop brk xs ([], []) = (S, c)"
    by (cases "read_loop brk xs ([], [])")
  have "read_loop brk (xs @ d # ys) ([], []) = read_loop brk ys (S @ [Slide_init c], [])"
    using assms by (simp add: read_loop_append xs)
  also have "\<dots> = ((S @ [Slide_init c]) @ fst (read_loop brk ys ([], [])),
                     snd (read_loop brk ys ([], [])))"
    using read_loop_prefix[of brk ys "S @ [Slide_init c]" "[]" "[]"] by simp
  finally show ?thesis
    by (simp add: read_md_file_def xs split: prod.splits)
qed

lemma html_Slide_init_empty:
  "md [] = [] \<Longrightarrow> html md (Slide_init []) = ''<section>'' @ [nl, nl] @ ''</section>'' @ [nl, nl]"
  by (simp add: html_def Slide_init_def rstrip_def is_space_def)

subsection \<open>Slides and delimiter lines\<close>

text \<open>
  Claim C3. For every document and every delimiter predicate, the number of
  slides is the number of delimiter lines plus one. The lines of the slides,
  in order, are the lines of the document without the delimiter lines, and
  every slide is as its constructor leaves it. A delimiter line \<open>d\<close> between
  \<open>xs\<close> and \<open>ys\<close> separates the slides of \<open>xs\<close> from those of \<open>ys\<close> and belongs
  to neither. A document without a delimiter line gives one slide holding
  all its lines in order. A leading delimiter gives an empty first slide and
  a trailing delimiter an empty last slide; the empty slide renders, with a
  renderer that maps the empty text to the empty text, as an empty section.
\<close>

theorem read_md_file_slides:
  "length (read_md_file brk doc) = length (filter brk doc) + 1
   \<and> concat (map slide_lines (read_md_file brk doc)) = filter (\<lambda>l. \<not> brk l) doc
   \<and> (\<forall>s\<in>set (read_md_file brk doc).
         sub_slides s = [slide_lines s] \<and> override_transition s = False)
   \<and> (brk d \<longrightarrow> read_md_file brk (xs @ d # ys) = read_md_file brk xs @ read_md_file brk ys)
   \<and> (filter brk doc = [] \<longrightarrow> read_md_file brk doc = [Slide_init doc])
   \<and> (brk d \<longrightarrow> read_md_file brk (d # ys) = Slide_init [] # read_md_file brk ys)
   \<and> (brk d \<longrightarrow> read_md_file brk (xs @ [d]) = read_md_file brk xs @ [Slide_init []])
   \<and> (md [] = [] \<longrightarrow>
        html md (Slide_init []) = ''<section>'' @ [nl, nl] @ ''</section>'' @ [nl, nl])"
proof (intro conjI impI)
  obtain S c where st: "read_loop brk doc ([], []) = (S, c)"
    by (cases "read_loop brk doc ([], [])")
  show "length (read_md_file brk doc) = length (filter brk doc) + 1"
    using read_loop_count[of brk doc "[]" "[]"] by (simp add: read_md_file_def st)
  show "concat (map slide_lines (read_md_file brk doc)) = filter (\<lambda>l. \<not> brk l) doc"
    using read_loop_lines[of brk doc "[]" "[]"]
    by (simp add: read_md_file_def st Slide_init_def)
  from read_loop_fresh[of "[]" brk doc "[]"]
  show "\<forall>s\<in>set (read_md_file brk doc).
          sub_slides s = [slide_lines s] \<and> override_transition s = False"
    by (simp add: read_md_file_def st Slide_init_def)
next
  assume "brk d"
  then show "read_md_file brk (xs @ d # ys) = read_md_file brk xs @ read_md_file brk ys"
    by (rule read_md_file_break)
next
  assume "filter brk doc = []"
  then show "read_md_file brk doc = [Slide_init doc]"
    by (simp add: read_md_file_def read_loop_no_break)
next
  assume "brk d"
  from read_md_file_break[of brk d "[]" ys, OF this]
  show "read_md_file brk (d # ys) = Slide_init [] # read_md_file brk ys"
    by (simp add: read_md_file_def)
next
  assume "brk d"
  from read_md_file_break[of brk d xs "[]", OF this]
  show "read_md_file brk (xs @ [d]) = read_md_file brk xs @ [Slide_init []]"
    by (simp add: read_md_file_def)
next
  assume "md [] = []"
  then show "html md (Slide_init []) = ''<section>'' @ [nl, nl] @ ''</section>'' @ [nl, nl]"
    by (rule html_Slide_init_empty)
qed

theorem read_md_file_slides_witness:
  "default_slide_break ''>>>''
   \<and> length (read_md_file default_slide_break boundary_document) = 4
   \<and> map slide_lines (read_md_file default_slide_break boundary_document) =
        [[], [''A''], [''B'', ''C''], []]
   \<and> read_md_file default_slide_break [''A'', ''B''] = [Slide_init [''A'', ''B'']]
   \<and> hd (read_md_file default_slide_break boundary_document) = Slide_init []
   \<and> last (read_md_file default_slide_break boundary_document) = Slide_init []
   \<and> html (\<lambda>t. t) (Slide_init []) = ''<section>'' @ [nl, nl] @ ''</section>'' @ [nl, nl]"
proof -
  have brk: "default_slide_break ''>>>''"
    by (simp add: default_slide_break_def)
  have nobrk: "filter default_slide_break [''A'', ''B''] = []"
    by (simp add: default_slide_break_def)
  have cnt: "length (filter default_slide_break boundary_document) = 3"
    by (simp add: default_slide_break_def boundary_document_def)
  have res: "map slide_lines (read_md_file default_slide_break boundary_document) =
        [[], [''A''], [''B'', ''C''], []]"
    by (simp add: default_slide_break_def boundary_document_def read_md_file_def Slide_init_def)
  have doc: "boundary_document = ''>>>'' # [''A'', ''--- >>> ---'', ''B'', ''C'', ''>>>'']"
    "boundary_document = [''>>>'', ''A'', ''--- >>> ---'', ''B'', ''C''] @ [''>>>'']"
    by (simp_all add: boundary_document_def)
  have md: "(\<lambda>t::string. t) [] = []" by simp
  from read_md_file_slides [of default_slide_break boundary_document "''>>>''"
      "[''>>>'', ''A'', ''--- >>> ---'', ''B'', ''C'']"
      "[''A'', ''--- >>> ---'', ''B'', ''C'', ''>>>'']" "\<lambda>t. t"] brk md
  have 1: "length (read_md_file default_slide_break boundary_document) =
             length (filter default_slide_break boundary_document) + 1"
    and 2: "read_md_file default_slide_break (''>>>'' # [''A'', ''--- >>> ---'', ''B'', ''C'', ''>>>'']) =
             Slide_init [] # read_md_file default_slide_break [''A'', ''--- >>> ---'', ''B'', ''C'', ''>>>'']"
    and 3: "read_md_file default_slide_break ([''>>>'', ''A'', ''--- >>> ---'', ''B'', ''C''] @ [''>>>'']) =
             read_md_file default_slide_break [''>>>'', ''A'', ''--- >>> ---'', ''B'', ''C''] @ [Slide_init []]"
    and 4: "html (\<lambda>t. t) (Slide_init []) = ''<section>'' @ [nl, nl] @ ''</section>'' @ [nl, nl]"
    by blast+
  from read_md_file_slides [of default_slide_break "[''A'', ''B'']"] nobrk
  have 5: "read_md_file default_slide_break [''A'', ''B''] = [Slide_init [''A'', ''B'']]"
    by blast
  have 6: "hd (read_md_file default_slide_break boundary_document) = Slide_init []"
    using 2 doc(1) by simp
  have 7: "last (read_md_file default_slide_break boundary_document) = Slide_init []"
    using 3 doc(2) by simp
  from 1 cnt res 4 5 6 7 brk show ?thesis by simp
qed

section \<open>Rendering\<close>

text \<open>The loop of \<^verbatim>\<open>html\<close> in closed form, and what \<^verbatim>\<open>split\<close> and \<^verbatim>\<open>rstrip\<close>
  do.\<close>

lemma html_loop_general:
  "html_loop md s subs out = out @ map (wrapped_block md (override_transition s)) subs"
  by (induction subs arbitrary: out)
    (simp_all add: wrapped_block_def section_open_def indent_lines_def Let_def)

lemma split_char_nonempty: "split_char c s \<noteq> []"
  by (induction s) (simp_all split: list.splits)

lemma split_char_no_sep: "\<forall>m\<in>set (split_char c s). c \<notin> set m"
  by (induction s) (auto split: list.splits)

lemma split_char_join: "concat (map (\<lambda>m. m @ [c]) (split_char c s)) = s @ [c]"
  by (induction s) (auto split: list.splits)

lemma split_char_line:
  "c \<notin> set m \<Longrightarrow> split_char c (m @ c # rest) = m # split_char c rest"
  by (induction m) (auto simp: split_char_nonempty split: list.splits)

lemma split_char_indented:
  assumes "\<forall>m\<in>set ms. c \<notin> set m" "c \<notin> set p"
  shows "split_char c (concat (map (\<lambda>m. p @ m @ [c]) ms)) = map (\<lambda>m. p @ m) ms @ [[]]"
  using assms
proof (induction ms)
  case Nil
  then show ?case by simp
next
  case (Cons m ms)
  have "c \<notin> set (p @ m)" using Cons.prems by simp
  from split_char_line[OF this]
  show ?case using Cons by simp
qed

lemma rstrip_suffix:
  "\<exists>w. x = rstrip x @ w \<and> (\<forall>ch\<in>set w. is_space ch)"
proof -
  have "rev x = takeWhile is_space (rev x) @ dropWhile is_space (rev x)" by simp
  then have "x = rev (dropWhile is_space (rev x)) @ rev (takeWhile is_space (rev x))"
    by (metis rev_append rev_rev_ident)
  moreover have "\<forall>ch\<in>set (rev (takeWhile is_space (rev x))). is_space ch"
    by (auto dest: set_takeWhileD)
  ultimately show ?thesis unfolding rstrip_def by blast
qed

lemma rstrip_last: "rstrip x = [] \<or> \<not> is_space (last (rstrip x))"
proof (cases "dropWhile is_space (rev x)")
  case Nil
  then show ?thesis by (simp add: rstrip_def)
next
  case (Cons a as)
  then have "\<not> is_space a" using hd_dropWhile[of is_space "rev x"] by simp
  with Cons show ?thesis by (simp add: rstrip_def)
qed

subsection \<open>The format of the rendered slide\<close>

text \<open>
  Claim C7. The \<^verbatim>\<open>html\<close> of a slide is the concatenation, in the order of the
  sub-slides, of one wrapped block per sub-slide. A block is the opening
  \<^verbatim>\<open>section\<close> tag, the rendered text of the concatenated lines with every
  line indented and the whole trimmed at its end, and the closing tag followed
  by a blank line. The opening tag carries \<^verbatim>\<open>data-transition="none"\<close> exactly
  when the slide's flag is true. The lines that are indented are the lines of
  the renderer's output; the indented text has exactly these lines, each with
  two spaces in front; and trimming removes a suffix of whitespace and leaves
  a text that does not end in whitespace.
\<close>

theorem html_render_format:
  "html md s = concat (map (wrapped_block md (override_transition s)) (sub_slides s))
   \<and> wrapped_block md ov sub =
        section_open ov @ [nl]
        @ rstrip (indent_lines (split_char nl (md (concat sub))))
        @ [nl] @ ''</section>'' @ [nl] @ [nl]
   \<and> ((section_open ov = ''<section data-transition='' @ [dq] @ ''none'' @ [dq] @ ''>'') = ov)
   \<and> ((section_open ov = ''<section>'') = (\<not> ov))
   \<and> concat (map (\<lambda>m. m @ [nl]) (split_char nl t)) = t @ [nl]
   \<and> split_char nl (indent_lines (split_char nl t)) = map (\<lambda>m. ''  '' @ m) (split_char nl t) @ [[]]
   \<and> (\<exists>w. x = rstrip x @ w \<and> (\<forall>ch\<in>set w. is_space ch))
   \<and> (rstrip x = [] \<or> \<not> is_space (last (rstrip x)))"
proof (intro conjI)
  show "html md s = concat (map (wrapped_block md (override_transition s)) (sub_slides s))"
    by (simp add: html_def html_loop_general)
  show "wrapped_block md ov sub =
        section_open ov @ [nl]
        @ rstrip (indent_lines (split_char nl (md (concat sub))))
        @ [nl] @ ''</section>'' @ [nl] @ [nl]"
    by (simp add: wrapped_block_def)
  show "(section_open ov = ''<section data-transition='' @ [dq] @ ''none'' @ [dq] @ ''>'') = ov"
    by (simp add: section_open_def)
  show "(section_open ov = ''<section>'') = (\<not> ov)"
    by (simp add: section_open_def)
  show "concat (map (\<lambda>m. m @ [nl]) (split_char nl t)) = t @ [nl]"
    by (rule split_char_join)
  show "split_char nl (indent_lines (split_char nl t)) = map (\<lambda>m. ''  '' @ m) (split_char nl t) @ [[]]"
    unfolding indent_lines_def
    by (rule split_char_indented) (simp_all add: split_char_no_sep)
  show "\<exists>w. x = rstrip x @ w \<and> (\<forall>ch\<in>set w. is_space ch)"
    by (rule rstrip_suffix)
  show "rstrip x = [] \<or> \<not> is_space (last (rstrip x))"
    by (rule rstrip_last)
qed

theorem html_render_format_witness:
  "html paragraph_renderer (Slide_init [''A'', ''B'']) =
     ''<section>'' @ [nl] @ ''  <p>AB</p>'' @ [nl] @ ''</section>'' @ [nl, nl]
   \<and> html paragraph_renderer
       \<lparr> slide_lines = [''I''], sub_slides = [[''x''], [''y '']], override_transition = True \<rparr> =
     ''<section data-transition='' @ [dq] @ ''none'' @ [dq] @ ''>'' @ [nl]
       @ ''  <p>x</p>'' @ [nl] @ ''</section>'' @ [nl, nl]
     @ ''<section data-transition='' @ [dq] @ ''none'' @ [dq] @ ''>'' @ [nl]
       @ ''  <p>y </p>'' @ [nl] @ ''</section>'' @ [nl, nl]
   \<and> rstrip (''  <p>A</p>'' @ [nl] @ ''  '' @ [nl]) = ''  <p>A</p>''"
proof -
  let ?s2 = "\<lparr> slide_lines = [''I''], sub_slides = [[''x''], [''y '']], override_transition = True \<rparr>"
  have r: "rstrip (''  <p>A</p>'' @ [nl] @ ''  '' @ [nl]) = ''  <p>A</p>''"
    by (simp add: rstrip_def is_space_def)
  from html_render_format [of paragraph_renderer "Slide_init [''A'', ''B'']"]
  have "html paragraph_renderer (Slide_init [''A'', ''B'']) =
      concat (map (wrapped_block paragraph_renderer
                     (override_transition (Slide_init [''A'', ''B''])))
                (sub_slides (Slide_init [''A'', ''B''])))"
    by blast
  then have 1: "html paragraph_renderer (Slide_init [''A'', ''B'']) =
     ''<section>'' @ [nl] @ ''  <p>AB</p>'' @ [nl] @ ''</section>'' @ [nl, nl]"
    by (simp add: Slide_init_def wrapped_block_def section_open_def indent_lines_def
        paragraph_renderer_def rstrip_def is_space_def)
  from html_render_format [of paragraph_renderer ?s2]
  have "html paragraph_renderer ?s2 =
      concat (map (wrapped_block paragraph_renderer (override_transition ?s2)) (sub_slides ?s2))"
    by blast
  then have 2: "html paragraph_renderer ?s2 =
     ''<section data-transition='' @ [dq] @ ''none'' @ [dq] @ ''>'' @ [nl]
       @ ''  <p>x</p>'' @ [nl] @ ''</section>'' @ [nl, nl]
     @ ''<section data-transition='' @ [dq] @ ''none'' @ [dq] @ ''>'' @ [nl]
       @ ''  <p>y </p>'' @ [nl] @ ''</section>'' @ [nl, nl]"
    by (simp add: wrapped_block_def section_open_def indent_lines_def
        paragraph_renderer_def rstrip_def is_space_def)
  from 1 2 r show ?thesis by simp
qed

end
